theory Spec2Isabelle
  imports Main "HOL-Library.Word" "HOL-Library.Signed_Division"
begin

section \<open>The Amount type and its unit constants\<close>

text \<open>
  \<^verbatim>\<open>type Amount int64\<close>: a signed 64-bit count of satoshis. Addition, subtraction,
  multiplication and negation wrap around as Go's do; the signed reading is \<open>sint\<close> and
  the signed comparisons are \<open><s\<close> and \<open>\<le>s\<close>. Go's \<^verbatim>\<open>int\<close> is taken at its 64-bit width
  (the width on every 64-bit platform), so the conversion \<^verbatim>\<open>int(left)\<close> is the identity.
\<close>

type_synonym Amount = "64 word"
type_synonym go_int = "64 word"

definition Satoshi :: Amount where
  "Satoshi = 1"

definition MicroBTC :: Amount where
  "MicroBTC = 100 * Satoshi"

definition MilliBTC :: Amount where
  "MilliBTC = 1000 * MicroBTC"

definition BTC :: Amount where
  "BTC = 1000 * MilliBTC"

definition AllBTC :: Amount where
  "AllBTC = 20999999 * BTC + 97690000 * Satoshi"

text \<open>
  Go's \<^verbatim>\<open>/\<close> and \<^verbatim>\<open>%\<close> on signed integers truncate towards zero, and the remainder has the
  sign of the dividend. The quotient \<^verbatim>\<open>MinInt64 / -1\<close> wraps to \<^verbatim>\<open>MinInt64\<close>. A zero divisor
  panics in Go; every division of the program is behind a guard or has a constant
  divisor, so the value at a zero divisor is never used.
\<close>

definition go_div :: "Amount \<Rightarrow> Amount \<Rightarrow> Amount" where
  "go_div a b = word_of_int (sint a sdiv sint b)"

definition go_mod :: "Amount \<Rightarrow> Amount \<Rightarrow> Amount" where
  "go_mod a b = word_of_int (sint a smod sint b)"

text \<open>\<^verbatim>\<open>func (a Amount) Abs() Amount\<close>\<close>

definition Abs :: "Amount \<Rightarrow> Amount" where
  "Abs a = (if a <s 0 then - a else a)"

section \<open>Parse\<close>

text \<open>
  The four errors Parse constructs with \<^verbatim>\<open>errors.New\<close>. The message of the fourth holds
  the offending character and the whole input; here it holds the byte offset at which
  that character starts and the input, which determine both.
\<close>

datatype parse_error =
    StrayPlus
  | StrayMinus
  | TooManyDecimalPoints
  | UnknownCharacter nat string

text \<open>The variables the closures of Parse capture and update.\<close>

record parse_state =
  val :: Amount
  decimals :: bool
  negative :: bool
  mul :: Amount

definition parse_init :: parse_state where
  "parse_init = \<lparr>val = 0 * Satoshi, decimals = False, negative = False, mul = 100 * MilliBTC\<rparr>"

text \<open>
  The closure \<^verbatim>\<open>add\<close>: before the decimal marker the digit counts whole BTC and the
  value shifts one decimal place; after it the digit is scaled by \<^verbatim>\<open>mul\<close>, which then
  shrinks by \<^verbatim>\<open>mul /= 10\<close>.
\<close>

definition add :: "Amount \<Rightarrow> parse_state \<Rightarrow> parse_state" where
  "add d st =
     (if \<not> decimals st
      then st\<lparr>val := val st * 10 + d * BTC\<rparr>
      else st\<lparr>val := val st + d * mul st, mul := go_div (mul st) 10\<rparr>)"

text \<open>The closure \<^verbatim>\<open>runeVal\<close>: \<^verbatim>\<open>Amount(r) - '0'\<close>.\<close>

definition runeVal :: "char \<Rightarrow> Amount" where
  "runeVal r = of_nat (of_char r) - 48"

definition is_digit :: "char \<Rightarrow> bool" where
  "is_digit r = (r \<in> set ''0123456789'')"

text \<open>
  The loop \<^verbatim>\<open>for pos, r := range in\<close> with its \<^verbatim>\<open>switch\<close>. The string is its bytes. Go
  decodes UTF-8 as it ranges, but every case of the switch is an ASCII character, ASCII
  bytes never occur inside a multi-byte sequence, and a byte of 128 or more starts a rune
  of 128 or more (or the replacement rune), which takes the \<^verbatim>\<open>default\<close> case and returns:
  so the loop over bytes takes the same branch at the same byte offset as the loop over
  runes. \<^verbatim>\<open>break\<close> inside the \<^verbatim>\<open>switch\<close> leaves the switch only, and the loop goes on.
\<close>

fun parse_loop :: "string \<Rightarrow> nat \<Rightarrow> string \<Rightarrow> parse_state \<Rightarrow> parse_error + parse_state" where
  "parse_loop inp pos [] st = Inr st"
| "parse_loop inp pos (r # rs) st =
     (if r = CHR ''+'' then
        (if pos = 0 then parse_loop inp (Suc pos) rs st else Inl StrayPlus)
      else if r = CHR ''-'' then
        (if pos = 0 then parse_loop inp (Suc pos) rs (st\<lparr>negative := True\<rparr>)
         else Inl StrayMinus)
      else if is_digit r then parse_loop inp (Suc pos) rs (add (runeVal r) st)
      else if r = CHR ''.'' \<or> r = CHR '','' then
        (if decimals st then Inl TooManyDecimalPoints
         else parse_loop inp (Suc pos) rs (st\<lparr>decimals := True\<rparr>))
      else Inl (UnknownCharacter pos inp))"

text \<open>
  \<^verbatim>\<open>func Parse(in string) (Amount, error)\<close>: the pair Go returns, the error \<open>None\<close> for
  \<^verbatim>\<open>nil\<close>. Every error return is \<^verbatim>\<open>return 0, errors.New(...)\<close>.
\<close>

definition Parse :: "string \<Rightarrow> Amount \<times> parse_error option" where
  "Parse inp =
     (case parse_loop inp 0 inp parse_init of
        Inl e \<Rightarrow> (0, Some e)
      | Inr st \<Rightarrow> (if negative st then (- val st, None) else (val st, None)))"

section \<open>Splitting and formatting\<close>

text \<open>\<^verbatim>\<open>func (a Amount) split(unit Amount) (int, int)\<close>\<close>

definition split :: "Amount \<Rightarrow> Amount \<Rightarrow> go_int \<times> go_int" where
  "split a unit =
     (if a = 0 then (0, 0)
      else if unit = 0 then (0, - 1)
      else let right = go_mod a unit;
               left = go_div (a - right) unit
           in (left, Abs right))"

text \<open>
  The library calls of SplitString. \<^verbatim>\<open>fmt.Sprintf("%d", n)\<close> writes the decimal digits of
  \<open>n\<close>, after a minus sign when \<open>n\<close> is negative. \<^verbatim>\<open>fmt.Sprintf("%0wd", n)\<close> pads the digits
  with zeros on the left up to the width \<open>w\<close>, the sign counted in the width; with the
  width 0 the format is \<^verbatim>\<open>%00d\<close>, two zero flags and no width, which pads nothing.
\<close>

definition digit_char :: "nat \<Rightarrow> char" where
  "digit_char d = char_of (48 + d)"

fun dec :: "nat \<Rightarrow> string" where
  "dec n = (if n < 10 then [digit_char n] else dec (n div 10) @ [digit_char (n mod 10)])"

declare dec.simps [simp del]

definition zero_pad :: "nat \<Rightarrow> string \<Rightarrow> string" where
  "zero_pad w s = replicate (w - length s) (CHR ''0'') @ s"

definition sprintf_d :: "go_int \<Rightarrow> string" where
  "sprintf_d n =
     (if sint n < 0 then CHR ''-'' # dec (nat (- sint n)) else dec (nat (sint n)))"

definition sprintf_0d :: "nat \<Rightarrow> go_int \<Rightarrow> string" where
  "sprintf_0d w n =
     (if sint n < 0 then CHR ''-'' # zero_pad (w - 1) (dec (nat (- sint n)))
      else zero_pad w (dec (nat (sint n))))"

text \<open>
  \<^verbatim>\<open>int(math.Log10(float64(unit)))\<close>. SplitString and Format document that the result
  is undefined unless the unit is a power of ten; the powers of ten of an int64 are
  \<open>10 ^ k\<close> for \<open>k \<le> 18\<close>, each of them exact as a float64, with the logarithm \<open>k\<close>. For any
  other unit the model gives \<open>None\<close>.
\<close>

definition log10_int :: "Amount \<Rightarrow> nat option" where
  "log10_int unit = find (\<lambda>k. unit = 10 ^ k) [0..<19]"

text \<open>
  The loop of SplitString that drops trailing zeros:
  \<^verbatim>\<open>for i := len(rightStr) - 1; i > 0; i-- { if rightStr[i] != '0' { break }; rightStr = rightStr[0:i] }\<close>.
  The index is a natural number here: for the empty string Go starts at -1 and the model
  at 0, and neither enters the loop.
\<close>

fun strip_loop :: "nat \<Rightarrow> string \<Rightarrow> string" where
  "strip_loop 0 rightStr = rightStr"
| "strip_loop (Suc j) rightStr =
     (if rightStr ! Suc j \<noteq> CHR ''0'' then rightStr
      else strip_loop j (take (Suc j) rightStr))"

text \<open>
  \<^verbatim>\<open>func (a Amount) SplitString(unit Amount) (string, string)\<close>. The result is \<open>None\<close>
  where the logarithm is undefined, and Format, String and MarshalText pass that on; at
  the units BTC, MilliBTC and Satoshi, the ones String and MarshalText use, it never is.
\<close>

definition SplitString :: "Amount \<Rightarrow> Amount \<Rightarrow> (string \<times> string) option" where
  "SplitString a unit =
     (case log10_int unit of
        None \<Rightarrow> None
      | Some log10 \<Rightarrow>
          (let (left, right) = split a unit;
               leftStr = sprintf_d left;
               rightStr = sprintf_0d log10 right
           in Some (leftStr, strip_loop (length rightStr - 1) rightStr)))"

text \<open>\<^verbatim>\<open>func (a Amount) Format(unit Amount) string\<close>\<close>

definition Format :: "Amount \<Rightarrow> Amount \<Rightarrow> string option" where
  "Format a unit =
     (case SplitString a unit of
        None \<Rightarrow> None
      | Some (left, right) \<Rightarrow>
          (if right = ''0'' then Some left else Some (left @ ''.'' @ right)))"

text \<open>\<^verbatim>\<open>func (a Amount) String() string\<close>\<close>

definition String :: "Amount \<Rightarrow> string option" where
  "String a =
     (if BTC <s Abs a \<or> a = 0 then map_option (\<lambda>s. s @ '' BTC'') (Format a BTC)
      else if MilliBTC <s Abs a then map_option (\<lambda>s. s @ '' mBTC'') (Format a MilliBTC)
      else map_option (\<lambda>s. s @ '' sats'') (Format a Satoshi))"

section \<open>Marshal adapters\<close>

text \<open>\<^verbatim>\<open>func (a Amount) MarshalText() (text []byte, err error)\<close>; the error is always nil.\<close>

definition MarshalText :: "Amount \<Rightarrow> string option" where
  "MarshalText a =
     (case SplitString a BTC of
        None \<Rightarrow> None
      | Some (left, right) \<Rightarrow> Some (left @ ''.'' @ right))"

text \<open>
  \<^verbatim>\<open>func (a *Amount) UnmarshalText(text []byte) error\<close>. The first argument is the value
  the receiver points to before the call; the result is the value it points to after the
  call and the returned error.
\<close>

definition UnmarshalText :: "Amount \<Rightarrow> string \<Rightarrow> Amount \<times> parse_error option" where
  "UnmarshalText a text =
     (case Parse text of
        (decoded, None) \<Rightarrow> (decoded, None)
      | (decoded, Some err) \<Rightarrow> (a, Some err))"

text \<open>
  \<^verbatim>\<open>func (a *Amount) UnmarshalJSON(in []byte) error\<close>. The slice expression is
  \<^verbatim>\<open>in[1 : len(in)-2]\<close>: the bytes from index 1 up to, not including, index \<open>len - 2\<close>.
  The float fallback calls \<^verbatim>\<open>json.Unmarshal(in, &f)\<close> and \<^verbatim>\<open>fmt.Sprintf("%.08f", f)\<close>, both
  of the standard library and both on float64: they are the parameter \<open>json_float\<close>, which
  gives the formatted text when \<^verbatim>\<open>json.Unmarshal\<close> returns no error and \<open>None\<close> when it
  returns one.
\<close>

definition json_slice :: "string \<Rightarrow> string" where
  "json_slice inp =
     (if length inp > 2 \<and> inp ! (length inp - 1) = CHR 0x22 \<and> inp ! 0 = CHR 0x22
      then drop 1 (take (length inp - 2) inp)
      else inp)"

definition UnmarshalJSON ::
  "(string \<Rightarrow> string option) \<Rightarrow> Amount \<Rightarrow> string \<Rightarrow> Amount \<times> parse_error option" where
  "UnmarshalJSON json_float a inp =
     (let inp' = json_slice inp in
      case UnmarshalText a inp' of
        (a', None) \<Rightarrow> (a', None)
      | (a', Some err) \<Rightarrow>
          (case json_float inp' of
             Some formatted \<Rightarrow>
               (case Parse formatted of
                  (asFloat, None) \<Rightarrow> (asFloat, None)
                | (asFloat, Some err2) \<Rightarrow> (a', Some err))
           | None \<Rightarrow> (a', Some err)))"

section \<open>The wording of the specification\<close>

text \<open>
  The characters the specification lists as known to Parse, and the two decimal markers.
\<close>

definition is_marker :: "char \<Rightarrow> bool" where
  "is_marker c = (c = CHR ''.'' \<or> c = CHR '','')"

definition allowed_char :: "char \<Rightarrow> bool" where
  "allowed_char c = (is_digit c \<or> c = CHR ''+'' \<or> c = CHR ''-'' \<or> is_marker c)"

text \<open>
  The inputs the specification says Parse rejects: a plus or a minus at a byte position
  other than 0, a decimal marker after an earlier decimal marker, or a character outside
  the known set.
\<close>

definition rejected :: "string \<Rightarrow> bool" where
  "rejected inp =
     ((\<exists>i \<in> {1..<length inp}. inp ! i = CHR ''+'')
      \<or> (\<exists>i \<in> {1..<length inp}. inp ! i = CHR ''-'')
      \<or> (\<exists>j \<in> {0..<length inp}. is_marker (inp ! j) \<and> (\<exists>i \<in> {0..<j}. is_marker (inp ! i)))
      \<or> (\<exists>i \<in> {0..<length inp}. \<not> allowed_char (inp ! i)))"

text \<open>
  The right string as the specification words it: the remainder padded with zeros on the
  left to a width, then the trailing zeros stripped from the right, down to but not below
  a single digit.
\<close>

definition strip_trailing_zeros :: "string \<Rightarrow> string" where
  "strip_trailing_zeros s =
     (let t = rev (dropWhile (\<lambda>c. c = CHR ''0'') (rev s))
      in if t = [] then take 1 s else t)"

definition spec_rightStr :: "nat \<Rightarrow> nat \<Rightarrow> string" where
  "spec_rightStr width r = strip_trailing_zeros (zero_pad width (dec r))"

section \<open>Signed 64-bit arithmetic\<close>

lemma pow10_lt: "k \<le> 18 \<Longrightarrow> (10::int) ^ k < 2 ^ 63"
proof -
  assume "k \<le> 18"
  then have "(10::int) ^ k \<le> 10 ^ 18" by (intro power_increasing) simp_all
  also have "\<dots> < 2 ^ 63" by simp
  finally show ?thesis .
qed

lemma sint_in_range:
  "- (2 ^ 63) \<le> x \<Longrightarrow> x < 2 ^ 63 \<Longrightarrow> sint (word_of_int x :: Amount) = x"
  by (simp add: signed_of_int signed_take_bit_int_eq_self)

lemma sint_pow10: "k \<le> 18 \<Longrightarrow> sint ((10::Amount) ^ k) = 10 ^ k"
proof -
  assume k: "k \<le> 18"
  have "(10::Amount) ^ k = word_of_int (10 ^ k)" by simp
  moreover have "- (2 ^ 63) \<le> (10::int) ^ k" by (rule order_trans [of _ 0]) simp_all
  ultimately show ?thesis using pow10_lt [OF k] by (simp only: sint_in_range)
qed

lemma sint_range: "- (2 ^ 63) \<le> sint (a::Amount)" "sint (a::Amount) < 2 ^ 63"
  using sint_ge [of a] sint_lt [of a] by simp_all

lemma sint_between:
  assumes "(0 \<le> y \<and> y \<le> sint (a::Amount)) \<or> (sint a \<le> y \<and> y \<le> 0)"
  shows "sint (word_of_int y :: Amount) = y"
proof -
  have "- (2 ^ 63) \<le> y" "y < 2 ^ 63"
    using assms sint_range [of a] by auto
  then show ?thesis by (rule sint_in_range)
qed

subsection \<open>Truncating division on the integers\<close>

lemma abs_mod_nonneg: "0 \<le> \<bar>x::int\<bar> mod \<bar>u\<bar>"
  by (cases "u = 0") simp_all

lemma smod_eq: "(x::int) smod u = sgn x * (\<bar>x\<bar> mod \<bar>u\<bar>)"
  by (simp add: signed_modulo_int_def)

lemma smod_abs: "\<bar>(x::int) smod u\<bar> = \<bar>x\<bar> mod \<bar>u\<bar>"
  using abs_mod_nonneg [of x u] by (cases "x = 0") (simp_all add: smod_eq abs_mult)

lemma smod_abs_le: "\<bar>(x::int) smod u\<bar> \<le> \<bar>x\<bar>"
  unfolding smod_abs by (rule zmod_le_nonneg_dividend) simp

lemma smod_abs_lt: "u \<noteq> 0 \<Longrightarrow> \<bar>(x::int) smod u\<bar> < \<bar>u\<bar>"
  unfolding smod_abs by simp

lemma smod_sgn: "sgn (x::int) * \<bar>x smod u\<bar> = x smod u"
  unfolding smod_abs by (simp add: smod_eq)

lemma smod_sign_cases: "sgn ((x::int) smod u) = 0 \<or> sgn (x smod u) = sgn x"
  using abs_mod_nonneg [of x u]
  by (cases "\<bar>x\<bar> mod \<bar>u\<bar> = 0") (simp_all add: smod_eq sgn_mult)

lemma smod_same_side:
  "0 \<le> (x::int) \<Longrightarrow> 0 \<le> x smod u" "(x::int) \<le> 0 \<Longrightarrow> x smod u \<le> 0"
  using abs_mod_nonneg [of x u] by (simp_all add: smod_eq sgn_if mult_le_0_iff)

lemma smod_between:
  "(0 \<le> (x::int) smod u \<and> x smod u \<le> x) \<or> (x \<le> x smod u \<and> x smod u \<le> 0)"
proof (cases "0 \<le> x")
  case True
  moreover from True have "0 \<le> x smod u" by (rule smod_same_side)
  ultimately show ?thesis using smod_abs_le [of x u] by simp
next
  case False
  then have "x \<le> 0" by simp
  then have "x smod u \<le> 0" by (rule smod_same_side)
  then show ?thesis using smod_abs_le [of x u] False by simp
qed

lemma sdiv_mult_cancel: "u \<noteq> 0 \<Longrightarrow> ((q::int) * u) sdiv u = q"
  by (simp add: signed_divide_int_def abs_mult sgn_mult) (simp add: sgn_if)

lemma div_le_self_int: "0 \<le> (y::int) \<Longrightarrow> 0 < u \<Longrightarrow> y div u \<le> y"
  by (metis div_by_1 int_one_le_iff_zero_less zdiv_mono2 zero_less_one)

lemma sdiv_between:
  assumes "0 < (u::int)"
  shows "(0 \<le> x sdiv u \<and> x sdiv u \<le> x) \<or> (x \<le> x sdiv u \<and> x sdiv u \<le> 0)"
proof -
  have q: "0 \<le> \<bar>x\<bar> div u" "\<bar>x\<bar> div u \<le> \<bar>x\<bar>"
    using assms by (simp_all add: pos_imp_zdiv_nonneg_iff div_le_self_int)
  have "x sdiv u = sgn x * (\<bar>x\<bar> div u)"
    using assms by (simp add: signed_divide_int_def)
  then show ?thesis using q by (cases "0 \<le> x") (auto simp: sgn_if)
qed

subsection \<open>The signed values split computes\<close>

lemma sint_go_mod: "sint (go_mod a u) = sint a smod sint u"
  unfolding go_mod_def by (rule sint_between [of _ a]) (rule smod_between)

lemma sint_minus_go_mod: "sint (a - go_mod a u) = sint a - sint a smod sint u"
proof -
  have eq: "a - go_mod a u = word_of_int (sint a - sint a smod sint u)"
    by (simp add: go_mod_def)
  show ?thesis
    unfolding eq using smod_between [of "sint a" "sint u"]
    by (intro sint_between [of _ a]) auto
qed

lemma sint_go_div_split:
  assumes "0 < sint u"
  shows "sint (go_div (a - go_mod a u) u) = sint a sdiv sint u"
proof -
  have "sint a - sint a smod sint u = sint a sdiv sint u * sint u"
    by (rule minus_smod_eq_sdiv_mult)
  then have "go_div (a - go_mod a u) u = word_of_int (sint a sdiv sint u)"
    using assms by (simp add: go_div_def sint_minus_go_mod sdiv_mult_cancel)
  then show ?thesis
    using sdiv_between [OF assms, of "sint a"] by (simp only: sint_between [of _ a])
qed

lemma sint_Abs: "sint a \<noteq> - (2 ^ 63) \<Longrightarrow> sint (Abs a) = \<bar>sint a\<bar>"
proof -
  assume ne: "sint a \<noteq> - (2 ^ 63)"
  have "sint (- a) = - sint a"
  proof -
    have "- a = word_of_int (- sint a)" by simp
    moreover have "- (2 ^ 63) \<le> - sint a" "- sint a < 2 ^ 63"
      using sint_range [of a] ne by auto
    ultimately show ?thesis by (simp only: sint_in_range)
  qed
  then show ?thesis by (simp add: Abs_def word_sless_alt)
qed

lemma sint_Abs_go_mod:
  assumes "0 < sint u"
  shows "sint (Abs (go_mod a u)) = \<bar>sint a smod sint u\<bar>"
proof -
  have "\<bar>sint a smod sint u\<bar> < \<bar>sint u\<bar>" using assms by (intro smod_abs_lt) simp
  then have "sint (go_mod a u) \<noteq> - (2 ^ 63)"
    using sint_range [of u] by (simp add: sint_go_mod)
  then show ?thesis by (simp add: sint_Abs sint_go_mod)
qed

lemma split_sint:
  assumes "0 < sint u" and "split a u = (left, right)"
  shows "sint left = sint a sdiv sint u" and "sint right = \<bar>sint a smod sint u\<bar>"
proof -
  have u0: "u \<noteq> 0" using assms(1) by auto
  show "sint left = sint a sdiv sint u"
  proof (cases "a = 0")
    case True
    then show ?thesis using assms(2) by (simp add: split_def)
  next
    case False
    then have "left = go_div (a - go_mod a u) u"
      using assms(2) u0 by (simp add: split_def Let_def)
    then show ?thesis by (simp add: sint_go_div_split [OF assms(1)])
  qed
  show "sint right = \<bar>sint a smod sint u\<bar>"
  proof (cases "a = 0")
    case True
    then show ?thesis using assms(2) by (simp add: split_def)
  next
    case False
    then have "right = Abs (go_mod a u)"
      using assms(2) u0 by (simp add: split_def Let_def)
    then show ?thesis by (simp add: sint_Abs_go_mod [OF assms(1)])
  qed
qed

section \<open>Properties of split\<close>

text \<open>
  Claim C3. For every Amount \<open>a\<close> and every unit \<open>10 ^ k\<close> that an int64 holds
  (\<open>k \<le> 18\<close>), the pair \<open>(left, right)\<close> that split returns satisfies
  \<open>left * unit + sign a * right = a\<close> on the signed values, with no wrap-around; \<open>left\<close>
  is the quotient truncated towards zero, \<open>right\<close> is the absolute value of the truncating
  remainder, that remainder is zero or has the sign of \<open>a\<close>, and \<open>right\<close> is below the unit.
\<close>

theorem split_invariant:
  assumes "k \<le> 18" and "split a (10 ^ k) = (left, right)"
  shows "sint left * 10 ^ k + sgn (sint a) * sint right = sint a
    \<and> sint left = sint a sdiv 10 ^ k
    \<and> sint right = \<bar>sint a smod 10 ^ k\<bar>
    \<and> (sgn (sint a smod 10 ^ k) = 0 \<or> sgn (sint a smod 10 ^ k) = sgn (sint a))
    \<and> sint right < 10 ^ k"
proof -
  have u: "sint ((10::Amount) ^ k) = 10 ^ k" using assms(1) by (rule sint_pow10)
  then have pos: "0 < sint ((10::Amount) ^ k)" by simp
  note s = split_sint [OF pos assms(2), unfolded u]
  have "sint a sdiv 10 ^ k * 10 ^ k + sint a smod 10 ^ k = sint a"
    by (rule sdiv_mult_smod_eq)
  moreover have "\<bar>sint a smod 10 ^ k\<bar> < \<bar>10 ^ k\<bar>" by (rule smod_abs_lt) simp
  ultimately show ?thesis
    using smod_sign_cases [of "sint a" "10 ^ k"] by (simp add: s smod_sgn)
qed

theorem split_invariant_witness:
  "(8::nat) \<le> 18 \<and> split (- 112345678) (10 ^ 8) = (- 1, 12345678)
     \<and> sint (- 1 :: Amount) * 10 ^ 8
         + sgn (sint (- 112345678 :: Amount)) * sint (12345678 :: Amount)
       = sint (- 112345678 :: Amount)"
proof -
  have k: "(8::nat) \<le> 18" by simp
  have s: "split (- 112345678) (10 ^ 8) = (- 1, 12345678)"
    by (simp add: split_def go_mod_def go_div_def Abs_def word_sless_alt
        signed_modulo_int_def signed_divide_int_def)
  show ?thesis using k s split_invariant [OF k s] by simp
qed

text \<open>
  Claim C9. With a zero unit and a nonzero Amount, split returns the sentinel \<open>(0, -1)\<close>;
  with the zero Amount it returns \<open>(0, 0)\<close> whatever the unit is, the zero unit included.
\<close>

theorem split_zero_cases:
  "(a \<noteq> 0 \<longrightarrow> split a 0 = (0, - 1)) \<and> split 0 unit = (0, 0) \<and> split 0 0 = (0, 0)"
  by (simp add: split_def)

theorem split_zero_cases_witness:
  "(5::Amount) \<noteq> 0 \<and> split 5 0 = (0, - 1) \<and> split 0 BTC = (0, 0) \<and> split 0 0 = (0, 0)"
  using split_zero_cases [of 5 BTC] by simp

section \<open>Properties of the unmarshal adapters\<close>

text \<open>
  Claim C10. Whenever UnmarshalText or UnmarshalJSON returns an error, the receiver holds
  the Amount it held before the call, whatever the float fallback decodes; so a receiver
  that changed comes with no error.
\<close>

theorem unmarshal_error_keeps_receiver:
  "(snd (UnmarshalText a text) \<noteq> None \<longrightarrow> fst (UnmarshalText a text) = a)
   \<and> (snd (UnmarshalJSON json_float a inp) \<noteq> None
        \<longrightarrow> fst (UnmarshalJSON json_float a inp) = a)"
  by (auto simp: UnmarshalText_def UnmarshalJSON_def Let_def split: prod.splits option.splits)

theorem unmarshal_error_keeps_receiver_witness:
  "snd (UnmarshalText 7 ''1x'') \<noteq> None \<and> fst (UnmarshalText 7 ''1x'') = 7
   \<and> snd (UnmarshalJSON (\<lambda>b. None) 7 ''1x'') \<noteq> None
   \<and> fst (UnmarshalJSON (\<lambda>b. None) 7 ''1x'') = 7"
proof -
  have p: "Parse ''1x'' = (0, Some (UnknownCharacter 1 ''1x''))"
    by code_simp
  have t: "snd (UnmarshalText 7 ''1x'') \<noteq> None"
    by (simp add: UnmarshalText_def p)
  have j: "snd (UnmarshalJSON (\<lambda>b. None) 7 ''1x'') \<noteq> None"
    by (simp add: UnmarshalJSON_def UnmarshalText_def json_slice_def p)
  show ?thesis
    using t j unmarshal_error_keeps_receiver [of 7 "''1x''" "\<lambda>b. None" "''1x''"] by simp
qed

text \<open>
  Claim C4, at the JSON input of the five bytes \<^verbatim>\<open>"1.5"\<close>. Its first and last bytes are
  quotes and its interior is \<^verbatim>\<open>1.5\<close>, which UnmarshalText decodes to 150000000 satoshis.
  UnmarshalJSON slices \<^verbatim>\<open>in[1 : len(in)-2]\<close>, which drops the last byte of the interior
  with the closing quote, decodes \<^verbatim>\<open>1.\<close> and assigns 100000000 satoshis with no error,
  whatever the float fallback is.
\<close>

theorem UnmarshalJSON_drops_last_interior_byte:
  "json_slice (CHR 0x22 # ''1.5'' @ [CHR 0x22]) = ''1.''
   \<and> UnmarshalJSON json_float a (CHR 0x22 # ''1.5'' @ [CHR 0x22]) = (100000000, None)
   \<and> UnmarshalText a ''1.5'' = (150000000, None)"
proof -
  have p1: "Parse ''1.'' = (100000000, None)" by code_simp
  have p2: "Parse ''1.5'' = (150000000, None)" by code_simp
  show ?thesis
    by (simp add: UnmarshalJSON_def UnmarshalText_def json_slice_def p1 p2)
qed

section \<open>Properties of Parse\<close>

lemma add_fields [simp]:
  "decimals (add d st) = decimals st" "negative (add d st) = negative st"
  by (simp_all add: add_def)

text \<open>
  The loop returns an error exactly when one of the four offending characters is ahead:
  an invariant over the position and the state, by induction on the rest of the input.
\<close>

lemma parse_loop_isl:
  "isl (parse_loop inp pos rs st) \<longleftrightarrow>
     (\<exists>i<length rs. pos + i \<noteq> 0 \<and> rs ! i = CHR ''+'')
     \<or> (\<exists>i<length rs. pos + i \<noteq> 0 \<and> rs ! i = CHR ''-'')
     \<or> (\<exists>j<length rs. is_marker (rs ! j) \<and> (decimals st \<or> (\<exists>i<j. is_marker (rs ! i))))
     \<or> (\<exists>i<length rs. \<not> allowed_char (rs ! i))"
proof (induction rs arbitrary: pos st)
  case Nil
  then show ?case by simp
next
  case (Cons r rs)
  show ?case
    unfolding parse_loop.simps length_Cons Ex_less_Suc2 nth_Cons_0 nth_Cons_Suc
    by (simp add: Cons.IH allowed_char_def is_marker_def is_digit_def)
qed

lemma Parse_error_iff_isl:
  "snd (Parse inp) \<noteq> None \<longleftrightarrow> isl (parse_loop inp 0 inp parse_init)"
  by (simp add: Parse_def split: sum.splits)

lemma rejected_iff:
  "rejected inp \<longleftrightarrow>
     (\<exists>i<length inp. i \<noteq> 0 \<and> inp ! i = CHR ''+'')
     \<or> (\<exists>i<length inp. i \<noteq> 0 \<and> inp ! i = CHR ''-'')
     \<or> (\<exists>j<length inp. is_marker (inp ! j) \<and> (\<exists>i<j. is_marker (inp ! i)))
     \<or> (\<exists>i<length inp. \<not> allowed_char (inp ! i))"
proof -
  have "(\<exists>i \<in> {1..<length inp}. P i) \<longleftrightarrow> (\<exists>i<length inp. i \<noteq> 0 \<and> P i)" for P
    by (auto simp: Suc_le_eq)
  moreover have "(\<exists>i \<in> {0..<n}. P i) \<longleftrightarrow> (\<exists>i<n. P i)" for P and n :: nat
    by auto
  ultimately show ?thesis unfolding rejected_def by simp
qed

lemma Parse_error_iff: "snd (Parse inp) \<noteq> None \<longleftrightarrow> rejected inp"
  unfolding Parse_error_iff_isl parse_loop_isl rejected_iff
  by (simp add: parse_init_def)

lemma Parse_error_zero: "snd (Parse inp) \<noteq> None \<Longrightarrow> fst (Parse inp) = 0"
  by (simp add: Parse_def split: sum.splits if_splits)

lemma parse_loop_error_kind:
  "parse_loop inp pos rs st = Inl e \<Longrightarrow>
     e = StrayPlus \<or> e = StrayMinus \<or> e = TooManyDecimalPoints
     \<or> (\<exists>i<length rs. e = UnknownCharacter (pos + i) inp \<and> \<not> allowed_char (rs ! i))"
proof (induction rs arbitrary: pos st)
  case Nil
  then show ?case by simp
next
  case (Cons r rs)
  show ?case
    using Cons.prems Cons.IH [of "Suc pos"]
    unfolding length_Cons Ex_less_Suc2 nth_Cons_0 nth_Cons_Suc
    by (auto simp: allowed_char_def is_marker_def split: if_splits)
qed

text \<open>
  Claim C2. Parse returns an error if and only if the input has a plus at a byte position
  other than 0, a minus at a byte position other than 0, a decimal marker after an earlier
  decimal marker, or a character outside the digits, the two signs and the two markers.
  The empty string and the bare minus parse to zero with no error. Every error is one of
  the four kinds, the unknown-character one naming a character outside the set.
\<close>

theorem Parse_errors:
  "(snd (Parse inp) \<noteq> None \<longleftrightarrow> rejected inp)
   \<and> Parse [] = (0, None)
   \<and> Parse ''-'' = (0, None)
   \<and> (\<forall>e. snd (Parse inp) = Some e \<longrightarrow>
         e = StrayPlus \<or> e = StrayMinus \<or> e = TooManyDecimalPoints
         \<or> (\<exists>i<length inp. e = UnknownCharacter i inp \<and> \<not> allowed_char (inp ! i)))"
proof -
  have k: "e = StrayPlus \<or> e = StrayMinus \<or> e = TooManyDecimalPoints
         \<or> (\<exists>i<length inp. e = UnknownCharacter i inp \<and> \<not> allowed_char (inp ! i))"
    if "snd (Parse inp) = Some e" for e
  proof -
    from that have "parse_loop inp 0 inp parse_init = Inl e"
      by (simp add: Parse_def split: sum.splits if_splits)
    from parse_loop_error_kind [OF this] show ?thesis by simp
  qed
  have "Parse [] = (0, None)" by (simp add: Parse_def parse_init_def Satoshi_def)
  moreover have "Parse ''-'' = (0, None)" by (simp add: Parse_def parse_init_def Satoshi_def)
  ultimately show ?thesis using k Parse_error_iff [of inp] by blast
qed

theorem Parse_errors_witness:
  "rejected ''1.2.3'' \<and> Parse ''1.2.3'' = (0, Some TooManyDecimalPoints)
   \<and> \<not> rejected ''-20.1'' \<and> snd (Parse ''-20.1'') = None"
proof -
  have p: "Parse ''1.2.3'' = (0, Some TooManyDecimalPoints)" by code_simp
  have q: "snd (Parse ''-20.1'') = None" by code_simp
  show ?thesis
    using Parse_errors [of "''1.2.3''"] Parse_errors [of "''-20.1''"] by (simp add: p q)
qed

text \<open>
  Claim C7 as worded says that some input with a sign character after a leading zero
  digit is accepted. No such input exists: whenever the first byte is the digit zero and
  a plus or a minus stands at a later byte position, Parse returns an error. The two
  inputs the claim names return the stray-plus and the stray-minus error.
\<close>

theorem sign_after_leading_zero_counterexample:
  "\<not> (\<exists>inp i. inp \<noteq> [] \<and> hd inp = CHR ''0'' \<and> 0 < i \<and> i < length inp
         \<and> (inp ! i = CHR ''+'' \<or> inp ! i = CHR ''-'') \<and> snd (Parse inp) = None)
   \<and> Parse ''0+020.0'' = (0, Some StrayPlus)
   \<and> Parse ''0-020.0'' = (0, Some StrayMinus)"
proof -
  have "\<not> (\<exists>inp i. inp \<noteq> [] \<and> hd inp = CHR ''0'' \<and> 0 < i \<and> i < length inp
         \<and> (inp ! i = CHR ''+'' \<or> inp ! i = CHR ''-'') \<and> snd (Parse inp) = None)"
  proof
    assume "\<exists>inp i. inp \<noteq> [] \<and> hd inp = CHR ''0'' \<and> 0 < i \<and> i < length inp
           \<and> (inp ! i = CHR ''+'' \<or> inp ! i = CHR ''-'') \<and> snd (Parse inp) = None"
    then obtain inp i
      where "i < length inp" "i \<noteq> 0" "inp ! i = CHR ''+'' \<or> inp ! i = CHR ''-''"
        and ok: "snd (Parse inp) = None" by auto
    then have "rejected inp" unfolding rejected_iff by blast
    then show False using ok Parse_error_iff [of inp] by simp
  qed
  moreover have "Parse ''0+020.0'' = (0, Some StrayPlus)" by code_simp
  moreover have "Parse ''0-020.0'' = (0, Some StrayMinus)" by code_simp
  ultimately show ?thesis by simp
qed

text \<open>
  Claim C7, amended. Every input with a plus or a minus at a byte position other than 0,
  a leading zero digit before it or not, is rejected: Parse returns an error, and with it
  the zero Amount, which is what a caller that drops the error sees.
\<close>

theorem stray_sign_rejected:
  assumes "i < length inp" and "i \<noteq> 0" and "inp ! i = CHR ''+'' \<or> inp ! i = CHR ''-''"
  shows "(\<exists>e. Parse inp = (0, Some e))
    \<and> Parse ''0+020.0'' = (0, Some StrayPlus)
    \<and> Parse ''0-020.0'' = (0, Some StrayMinus)"
proof -
  have "rejected inp" using assms unfolding rejected_iff by blast
  then have "snd (Parse inp) \<noteq> None" using Parse_error_iff [of inp] by blast
  then have "\<exists>e. Parse inp = (0, Some e)"
    using Parse_error_zero [of inp] by (cases "Parse inp") auto
  moreover have "Parse ''0+020.0'' = (0, Some StrayPlus)" by code_simp
  moreover have "Parse ''0-020.0'' = (0, Some StrayMinus)" by code_simp
  ultimately show ?thesis by simp
qed

theorem stray_sign_rejected_witness:
  "(1::nat) < length ''0+020.0'' \<and> ''0+020.0'' ! 1 = CHR ''+''
   \<and> (\<exists>e. Parse ''0+020.0'' = (0, Some e))
   \<and> (1::nat) < length ''0-020.0'' \<and> ''0-020.0'' ! 1 = CHR ''-''
   \<and> (\<exists>e. Parse ''0-020.0'' = (0, Some e))"
proof -
  have "\<exists>e. Parse ''0+020.0'' = (0, Some e)"
    using stray_sign_rejected [of 1 "''0+020.0''"] by simp
  moreover have "\<exists>e. Parse ''0-020.0'' = (0, Some e)"
    using stray_sign_rejected [of 1 "''0-020.0''"] by simp
  ultimately show ?thesis by simp
qed

subsection \<open>A leading minus\<close>

text \<open>
  On an input with no sign at its head, a successful run of the loop never writes the
  \<open>negative\<close> flag and does not depend on the position it starts from.
\<close>

lemma no_sign_shift:
  assumes "parse_loop inp pos rs st = Inr st'"
    and "pos = 0 \<longrightarrow> rs = [] \<or> (hd rs \<noteq> CHR ''+'' \<and> hd rs \<noteq> CHR ''-'')"
  shows "parse_loop inp' (Suc pos') rs (st\<lparr>negative := b\<rparr>) = Inr (st'\<lparr>negative := b\<rparr>)"
  using assms
proof (induction rs arbitrary: pos pos' st)
  case Nil
  then show ?case by simp
next
  case (Cons r rs)
  have upd: "add d (s\<lparr>negative := b\<rparr>) = (add d s)\<lparr>negative := b\<rparr>" for d s
    by (simp add: add_def)
  have nosign: "r \<noteq> CHR ''+''" "r \<noteq> CHR ''-''"
    using Cons.prems by (auto split: if_splits)
  show ?case
  proof (cases "is_digit r")
    case True
    with Cons.prems nosign have "parse_loop inp (Suc pos) rs (add (runeVal r) st) = Inr st'"
      by simp
    from Cons.IH [OF this, of "Suc pos'"] show ?thesis
      using True nosign by (simp add: upd)
  next
    case False
    with Cons.prems nosign
    have m: "r = CHR ''.'' \<or> r = CHR '',''" and d: "\<not> decimals st"
      and l: "parse_loop inp (Suc pos) rs (st\<lparr>decimals := True\<rparr>) = Inr st'"
      by (auto split: if_splits)
    have swap: "s\<lparr>negative := b, decimals := True\<rparr> = s\<lparr>decimals := True, negative := b\<rparr>"
      for s :: parse_state by (cases s) simp
    from Cons.IH [OF l, of "Suc pos'"] show ?thesis
      using False nosign m d by (auto simp: swap)
  qed
qed

lemma no_sign_negative:
  assumes "parse_loop inp pos rs st = Inr st'"
    and "pos = 0 \<longrightarrow> rs = [] \<or> (hd rs \<noteq> CHR ''+'' \<and> hd rs \<noteq> CHR ''-'')"
  shows "negative st' = negative st"
  using assms
proof (induction rs arbitrary: pos st)
  case Nil
  then show ?case by simp
next
  case (Cons r rs)
  from Cons.prems show ?case
    by (auto split: if_splits dest!: Cons.IH)
qed

text \<open>
  Claim C6 as worded ranges over every input Parse accepts. The input \<^verbatim>\<open>+1\<close> is
  accepted, and with a minus in front of it the plus stands at byte position 1, so Parse
  returns the stray-plus error and not the negated Amount.
\<close>

theorem Parse_minus_prefix_counterexample:
  "snd (Parse ''+1'') = None
   \<and> Parse (CHR ''-'' # ''+1'') = (0, Some StrayPlus)
   \<and> Parse (CHR ''-'' # ''+1'') \<noteq> (- fst (Parse ''+1''), None)"
proof -
  have p: "Parse ''+1'' = (100000000, None)" by code_simp
  have q: "Parse ''-+1'' = (0, Some StrayPlus)" by code_simp
  show ?thesis by (simp add: p q)
qed

text \<open>
  Claim C6, amended. For every input \<open>X\<close> that Parse accepts and that does not itself
  start with a plus or a minus, Parse accepts the input with a minus in front and returns
  the negation of the Amount of \<open>X\<close>.
\<close>

theorem Parse_minus_prefix:
  assumes "snd (Parse X) = None"
    and "X = [] \<or> (hd X \<noteq> CHR ''+'' \<and> hd X \<noteq> CHR ''-'')"
  shows "Parse (CHR ''-'' # X) = (- fst (Parse X), None)"
proof -
  from assms(1) obtain st where st: "parse_loop X 0 X parse_init = Inr st"
    by (auto simp: Parse_def split: sum.splits)
  have "parse_loop (CHR ''-'' # X) (Suc 0) X (parse_init\<lparr>negative := True\<rparr>)
          = Inr (st\<lparr>negative := True\<rparr>)"
    using st assms(2) by (intro no_sign_shift [of X 0]) auto
  then have m: "Parse (CHR ''-'' # X) = (- val st, None)"
    by (simp add: Parse_def)
  have "negative st = negative parse_init"
    using st assms(2) by (intro no_sign_negative [of X 0 X]) auto
  then have "\<not> negative st" by (simp add: parse_init_def)
  then have "Parse X = (val st, None)"
    by (simp add: Parse_def st)
  with m show ?thesis by simp
qed

theorem Parse_minus_prefix_witness:
  "snd (Parse ''20.1'') = None \<and> Parse ''20.1'' = (2010000000, None)
   \<and> Parse ''-20.1'' = (- 2010000000, None)"
proof -
  have p: "Parse ''20.1'' = (2010000000, None)" by code_simp
  show ?thesis using Parse_minus_prefix [of "''20.1''"] by (simp add: p)
qed

section \<open>Properties of SplitString\<close>

lemma pow10_inj: "k \<le> 18 \<Longrightarrow> j \<le> 18 \<Longrightarrow> (10::Amount) ^ k = 10 ^ j \<Longrightarrow> k = j"
proof -
  assume k: "k \<le> 18" and j: "j \<le> 18" and e: "(10::Amount) ^ k = 10 ^ j"
  from e have "sint ((10::Amount) ^ k) = sint ((10::Amount) ^ j)" by simp
  then have "(10::int) ^ k = 10 ^ j" by (simp only: sint_pow10 [OF k] sint_pow10 [OF j])
  then show "k = j" by simp
qed

lemma log10_int_pow: "k \<le> 18 \<Longrightarrow> log10_int (10 ^ k) = Some k"
proof -
  assume k: "k \<le> 18"
  have "\<exists>i<length [0..<19]. (10::Amount) ^ k = 10 ^ ([0..<19] ! i) \<and> k = [0..<19] ! i
          \<and> (\<forall>j<i. (10::Amount) ^ k \<noteq> 10 ^ ([0..<19] ! j))"
  proof (intro exI [of _ k] conjI allI impI)
    show "k < length [0..<19]" using k by simp
    show "(10::Amount) ^ k = 10 ^ ([0..<19] ! k)" using k by simp
    show "k = [0..<19] ! k" using k by simp
    fix j assume "j < k"
    then show "(10::Amount) ^ k \<noteq> 10 ^ ([0..<19] ! j)"
      using k pow10_inj [of k j] by auto
  qed
  then show ?thesis unfolding log10_int_def find_Some_iff .
qed

lemma log10_int_Some: "log10_int u = Some k \<Longrightarrow> k \<le> 18 \<and> u = 10 ^ k"
  unfolding log10_int_def find_Some_iff by auto

lemmas unit_defs = BTC_def MilliBTC_def MicroBTC_def Satoshi_def

lemma log10_int_units:
  "log10_int BTC = Some 8" "log10_int MilliBTC = Some 5" "log10_int Satoshi = Some 0"
  using log10_int_pow [of 8] log10_int_pow [of 5] log10_int_pow [of 0]
  by (simp_all add: unit_defs)

text \<open>The loop that drops trailing zeros computes what the specification words.\<close>

lemma strip_loop_snoc:
  "strip_loop (length xs) (xs @ [x]) =
     (if xs = [] \<or> x \<noteq> CHR ''0'' then xs @ [x] else strip_loop (length xs - 1) xs)"
  by (cases xs rule: rev_cases) (simp_all add: nth_append)

lemma strip_spec_snoc:
  "strip_trailing_zeros (xs @ [x]) =
     (if xs = [] \<or> x \<noteq> CHR ''0'' then xs @ [x] else strip_trailing_zeros xs)"
  by (cases xs) (auto simp: strip_trailing_zeros_def Let_def)

lemma strip_loop_spec: "strip_loop (length s - 1) s = strip_trailing_zeros s"
proof (induction s rule: rev_induct)
  case Nil
  then show ?case by (simp add: strip_trailing_zeros_def)
next
  case (snoc x xs)
  then show ?case by (simp add: strip_loop_snoc strip_spec_snoc)
qed

lemma dec_nonempty: "dec n \<noteq> []"
  by (subst dec.simps) simp

lemma zero_pad_nonempty: "s \<noteq> [] \<Longrightarrow> zero_pad w s \<noteq> []"
  by (simp add: zero_pad_def)

lemma strip_trailing_zeros_nonempty: "s \<noteq> [] \<Longrightarrow> strip_trailing_zeros s \<noteq> []"
  by (cases s) (auto simp: strip_trailing_zeros_def Let_def)

lemma spec_rightStr_nonempty: "spec_rightStr w r \<noteq> []"
  unfolding spec_rightStr_def
  by (intro strip_trailing_zeros_nonempty zero_pad_nonempty dec_nonempty)

lemma digit_char_simps:
  "digit_char 0 = CHR ''0''" "digit_char 1 = CHR ''1''" "digit_char 2 = CHR ''2''"
  "digit_char 3 = CHR ''3''" "digit_char 4 = CHR ''4''" "digit_char 5 = CHR ''5''"
  "digit_char 6 = CHR ''6''" "digit_char 7 = CHR ''7''" "digit_char 8 = CHR ''8''"
  "digit_char 9 = CHR ''9''" "digit_char (Suc 0) = CHR ''1''"
  by (simp_all add: digit_char_def char_of_def bit_0)

lemma replicate_numeral: "replicate (numeral k) x = x # replicate (pred_numeral k) x"
  by (simp add: numeral_eq_Suc)

lemma strip_zeros_replicate: "strip_trailing_zeros (replicate n (CHR ''0'') @ ''0'') = ''0''"
proof (induction n)
  case 0
  then show ?case by (simp add: strip_trailing_zeros_def)
next
  case (Suc n)
  have "replicate (Suc n) (CHR ''0'') @ ''0'' = (replicate n (CHR ''0'') @ ''0'') @ ''0''"
    by (simp add: replicate_append_same)
  then show ?case using Suc by (simp only: strip_spec_snoc) simp
qed

lemma spec_rightStr_zero: "spec_rightStr w 0 = ''0''"
  by (simp add: spec_rightStr_def zero_pad_def dec.simps digit_char_simps strip_zeros_replicate)

lemma sprintf_0d_nonneg: "0 \<le> sint n \<Longrightarrow> sprintf_0d w n = zero_pad w (dec (nat (sint n)))"
  by (simp add: sprintf_0d_def)

lemma SplitString_pow10:
  assumes "k \<le> 18" and "split a (10 ^ k) = (left, right)"
  shows "SplitString a (10 ^ k) = Some (sprintf_d left, spec_rightStr k (nat (sint right)))"
proof -
  have "sint right = \<bar>sint a smod sint ((10::Amount) ^ k)\<bar>"
    using assms by (intro split_sint(2) [of _ a left]) (simp_all add: sint_pow10)
  then have "0 \<le> sint right" by simp
  then show ?thesis
    using assms
    by (simp add: SplitString_def log10_int_pow sprintf_0d_nonneg Let_def
        strip_loop_spec [simplified] spec_rightStr_def)
qed

text \<open>Evaluation at concrete Amounts.\<close>

lemmas split_eval = split_def go_mod_def go_div_def Abs_def word_sless_alt
  signed_modulo_int_def signed_divide_int_def

lemmas spec_eval = spec_rightStr_def strip_trailing_zeros_def zero_pad_def dec.simps
  digit_char_simps replicate_numeral

lemma SplitString_eval:
  assumes "k \<le> 18" and "u = 10 ^ k" and "split a u = (left, right)"
    and "sprintf_d left = l" and "spec_rightStr k (nat (sint right)) = r"
  shows "SplitString a u = Some (l, r)"
  using SplitString_pow10 [of k a left right] assms by simp

text \<open>
  Claim C8 as worded gives the width as the logarithm of the largest unit minus the
  logarithm of the unit, which for BTC is \<open>8 - 8 = 0\<close>. At 5 satoshis and the unit BTC
  that width gives the right string \<^verbatim>\<open>5\<close>; SplitString pads to the width 8 and returns
  \<^verbatim>\<open>00000005\<close>.
\<close>

theorem SplitString_width_counterexample:
  "log10_int BTC = Some 8
   \<and> split 5 BTC = (0, 5)
   \<and> SplitString 5 BTC = Some (''0'', ''00000005'')
   \<and> SplitString 5 BTC \<noteq> Some (''0'', spec_rightStr (8 - 8) (nat (sint (5::Amount))))"
proof -
  have s: "split 5 BTC = (0, 5)"
    by (simp add: unit_defs split_eval)
  have r0: "spec_rightStr 0 5 = ''5''"
    by (simp add: spec_eval)
  have "SplitString 5 BTC = Some (''0'', ''00000005'')"
    by (rule SplitString_eval [of 8 _ _ 0 5])
       (simp_all add: unit_defs split_eval sprintf_d_def spec_eval)
  then show ?thesis
    by (simp add: s r0 log10_int_units)
qed

text \<open>
  Claim C8, amended. For every Amount and every unit \<open>10 ^ k\<close> that an int64 holds, the
  second string of SplitString is the remainder padded with zeros on the left to the
  width \<open>k\<close>, the logarithm of the unit itself, with the trailing zeros then stripped
  down to but not below a single digit; it is never empty, and a zero remainder gives
  \<^verbatim>\<open>0\<close>. The first string is the decimal rendering of the quotient.
\<close>

theorem SplitString_right_width:
  assumes "k \<le> 18"
  shows "\<exists>left right. split a (10 ^ k) = (left, right)
           \<and> SplitString a (10 ^ k) = Some (sprintf_d left, spec_rightStr k (nat (sint right)))
           \<and> spec_rightStr k (nat (sint right)) \<noteq> []
           \<and> (right = 0 \<longrightarrow> spec_rightStr k (nat (sint right)) = ''0'')"
proof -
  obtain left right where s: "split a (10 ^ k) = (left, right)" by (cases "split a (10 ^ k)")
  show ?thesis
    using s SplitString_pow10 [OF assms s]
    by (auto simp: spec_rightStr_nonempty spec_rightStr_zero)
qed

theorem SplitString_right_width_witness:
  "(8::nat) \<le> 18 \<and> SplitString 1000120000 (10 ^ 8) = Some (''10'', ''0012'')"
proof -
  have k: "(8::nat) \<le> 18" by simp
  have s: "split 1000120000 (10 ^ 8) = (10, 120000)"
    by (simp add: split_eval)
  have l: "sprintf_d 10 = ''10''"
    by (simp add: sprintf_d_def dec.simps digit_char_simps)
  have r: "spec_rightStr 8 120000 = ''0012''"
    by (simp add: spec_eval)
  show ?thesis
    using k s SplitString_right_width [OF k, of 1000120000] by (simp add: l r)
qed

section \<open>Properties of Format and String\<close>

lemma Format_pow10_Some: "k \<le> 18 \<Longrightarrow> \<exists>s. Format a (10 ^ k) = Some s"
proof -
  assume k: "k \<le> 18"
  obtain left right where s: "split a (10 ^ k) = (left, right)" by (cases "split a (10 ^ k)")
  show ?thesis by (simp add: Format_def SplitString_pow10 [OF k s])
qed

lemma Format_units_Some:
  "\<exists>s. Format a BTC = Some s" "\<exists>s. Format a MilliBTC = Some s" "\<exists>s. Format a Satoshi = Some s"
  using Format_pow10_Some [of 8 a] Format_pow10_Some [of 5 a] Format_pow10_Some [of 0 a]
  by (simp_all add: unit_defs)

lemma SplitString_0_BTC: "SplitString 0 BTC = Some (''0'', ''0'')"
  by (rule SplitString_eval [of 8 _ _ 0 0])
     (simp_all add: unit_defs split_eval sprintf_d_def spec_eval)

lemma SplitString_BTC_MilliBTC: "SplitString BTC MilliBTC = Some (''1000'', ''0'')"
  by (rule SplitString_eval [of 5 _ _ 1000 0])
     (simp_all add: unit_defs split_eval sprintf_d_def spec_eval)

lemma SplitString_MilliBTC_Satoshi: "SplitString MilliBTC Satoshi = Some (''100000'', ''0'')"
  by (rule SplitString_eval [of 0 _ _ 100000 0])
     (simp_all add: unit_defs split_eval sprintf_d_def spec_eval)

lemma SplitString_201: "SplitString 201000000 BTC = Some (''2'', ''01'')"
  by (rule SplitString_eval [of 8 _ _ 2 1000000])
     (simp_all add: unit_defs split_eval sprintf_d_def spec_eval)

lemma SplitString_min_int64:
  "SplitString (- 9223372036854775808) Satoshi = Some (''-9223372036854775808'', ''0'')"
  by (rule SplitString_eval [of 0 _ _ "- 9223372036854775808" 0])
     (simp_all add: unit_defs split_eval sprintf_d_def spec_eval)

text \<open>
  String as the code compares: on \<^verbatim>\<open>a.Abs()\<close>, for every Amount. Format returns a
  string at each of the three units.
\<close>

lemma String_by_Abs:
  "(a = 0 \<or> BTC <s Abs a \<longrightarrow>
      (\<exists>s. Format a BTC = Some s \<and> String a = Some (s @ '' BTC'')))
   \<and> (a \<noteq> 0 \<and> \<not> BTC <s Abs a \<and> MilliBTC <s Abs a \<longrightarrow>
      (\<exists>s. Format a MilliBTC = Some s \<and> String a = Some (s @ '' mBTC'')))
   \<and> (a \<noteq> 0 \<and> \<not> BTC <s Abs a \<and> \<not> MilliBTC <s Abs a \<longrightarrow>
      (\<exists>s. Format a Satoshi = Some s \<and> String a = Some (s @ '' sats'')))"
  using Format_units_Some [of a] by (auto simp: String_def)

lemma String_thresholds:
  "String 0 = Some ''0 BTC''" "String BTC = Some ''1000 mBTC''"
  "String MilliBTC = Some ''100000 sats''"
proof -
  show "String 0 = Some ''0 BTC''"
    by (simp add: String_def Format_def SplitString_0_BTC)
  show "String BTC = Some ''1000 mBTC''"
    by (simp add: String_def Format_def SplitString_BTC_MilliBTC)
       (simp add: unit_defs Abs_def word_sless_alt)
  show "String MilliBTC = Some ''100000 sats''"
    by (simp add: String_def Format_def SplitString_MilliBTC_Satoshi)
       (simp add: unit_defs Abs_def word_sless_alt)
qed

lemma sint_units: "sint BTC = 100000000" "sint MilliBTC = 100000"
  by (simp_all add: unit_defs)

text \<open>
  Claim C5 as worded compares the magnitude of the Amount. The least int64 has a
  magnitude above one BTC and is not zero, but \<^verbatim>\<open>a.Abs()\<close> negates it with wrap-around and
  returns it unchanged, a negative value: both comparisons fail and String renders it
  in sats, not in BTC as Format at the unit BTC would.
\<close>

theorem String_least_int64_counterexample:
  "sint BTC < \<bar>sint (- 9223372036854775808 :: Amount)\<bar>
   \<and> Abs (- 9223372036854775808) = - 9223372036854775808
   \<and> String (- 9223372036854775808) = Some ''-9223372036854775808 sats''
   \<and> Format (- 9223372036854775808) BTC = Some ''-92233720368.54775808''
   \<and> String (- 9223372036854775808)
        \<noteq> map_option (\<lambda>s. s @ '' BTC'') (Format (- 9223372036854775808) BTC)"
proof -
  have a: "Abs (- 9223372036854775808) = - 9223372036854775808"
    by (simp add: Abs_def word_sless_alt)
  have s: "String (- 9223372036854775808) = Some ''-9223372036854775808 sats''"
    by (simp add: String_def Format_def SplitString_min_int64 a)
       (simp add: unit_defs word_sless_alt)
  have "SplitString (- 9223372036854775808) BTC = Some (''-92233720368'', ''54775808'')"
    by (rule SplitString_eval [of 8 _ _ "- 92233720368" 54775808])
       (simp_all add: unit_defs split_eval sprintf_d_def spec_eval)
  then have f: "Format (- 9223372036854775808) BTC = Some ''-92233720368.54775808''"
    by (simp add: Format_def)
  show ?thesis by (simp add: a s f sint_units)
qed

text \<open>
  Claim C5, amended. For every Amount but the least int64, String chooses the unit by
  strict comparisons of the magnitude: above one BTC, or zero, it renders in BTC with the
  suffix \<^verbatim>\<open>BTC\<close>; otherwise above one MilliBTC it renders in mBTC; otherwise in sats. So
  zero renders as \<^verbatim>\<open>0 BTC\<close>, exactly one BTC as \<^verbatim>\<open>1000 mBTC\<close> and exactly one MilliBTC
  as \<^verbatim>\<open>100000 sats\<close>. At the least int64 \<^verbatim>\<open>a.Abs()\<close> is negative and String renders in
  sats.
\<close>

theorem String_unit_choice:
  "(sint a \<noteq> - (2 ^ 63) \<longrightarrow>
      (a = 0 \<or> sint BTC < \<bar>sint a\<bar> \<longrightarrow>
         (\<exists>s. Format a BTC = Some s \<and> String a = Some (s @ '' BTC'')))
      \<and> (a \<noteq> 0 \<and> \<not> sint BTC < \<bar>sint a\<bar> \<and> sint MilliBTC < \<bar>sint a\<bar> \<longrightarrow>
         (\<exists>s. Format a MilliBTC = Some s \<and> String a = Some (s @ '' mBTC'')))
      \<and> (a \<noteq> 0 \<and> \<not> sint BTC < \<bar>sint a\<bar> \<and> \<not> sint MilliBTC < \<bar>sint a\<bar> \<longrightarrow>
         (\<exists>s. Format a Satoshi = Some s \<and> String a = Some (s @ '' sats''))))
   \<and> String 0 = Some ''0 BTC''
   \<and> String BTC = Some ''1000 mBTC''
   \<and> String MilliBTC = Some ''100000 sats''
   \<and> sint (Abs (- 9223372036854775808)) = - (2 ^ 63)
   \<and> String (- 9223372036854775808) = Some ''-9223372036854775808 sats''"
proof -
  have c: "BTC <s Abs a \<longleftrightarrow> sint BTC < \<bar>sint a\<bar>"
    "MilliBTC <s Abs a \<longleftrightarrow> sint MilliBTC < \<bar>sint a\<bar>"
    if "sint a \<noteq> - (2 ^ 63)"
    using sint_Abs [OF that] by (simp_all add: word_sless_alt)
  have a: "Abs (- 9223372036854775808) = - 9223372036854775808"
    by (simp add: Abs_def word_sless_alt)
  have m: "String (- 9223372036854775808) = Some ''-9223372036854775808 sats''"
    by (simp add: String_def Format_def SplitString_min_int64 a)
       (simp add: unit_defs word_sless_alt)
  show ?thesis
    using String_by_Abs [of a] String_thresholds c m by (simp add: a)
qed

theorem String_unit_choice_witness:
  "sint (201000000 :: Amount) \<noteq> - (2 ^ 63)
   \<and> sint BTC < \<bar>sint (201000000 :: Amount)\<bar>
   \<and> Format 201000000 BTC = Some ''2.01''
   \<and> String 201000000 = Some ''2.01 BTC''"
proof -
  have h: "sint (201000000 :: Amount) \<noteq> - (2 ^ 63)" by simp
  have g: "sint BTC < \<bar>sint (201000000 :: Amount)\<bar>" by (simp add: sint_units)
  have f: "Format 201000000 BTC = Some ''2.01''" by (simp add: Format_def SplitString_201)
  show ?thesis using h g f String_unit_choice [of 201000000] by auto
qed

section \<open>Parsing what Format wrote\<close>

text \<open>
  How the loop of Parse reads the digits that \<open>dec\<close> writes: the integer part before the
  decimal marker, the zero-padded fraction after it, and a run of trailing zeros.
\<close>

lemma digit_cases: "m < 10 \<Longrightarrow> m = 0 \<or> m = 1 \<or> m = 2 \<or> m = 3 \<or> m = 4 \<or> m = 5 \<or> m = 6 \<or> m = 7 \<or> m = 8 \<or> m = (9::nat)"
  by arith

lemma digit_char_props:
  assumes "m < 10"
  shows "is_digit (digit_char m)" "digit_char m \<noteq> CHR ''+''" "digit_char m \<noteq> CHR ''-''"
    "runeVal (digit_char m) = of_nat m"
  using digit_cases [OF assms]
  by (auto simp: digit_char_simps is_digit_def runeVal_def)

lemma parse_loop_digit:
  "m < 10 \<Longrightarrow> parse_loop inp pos (digit_char m # rs) st = parse_loop inp (Suc pos) rs (add (of_nat m) st)"
  by (simp add: digit_char_props)

lemma parse_loop_append:
  "parse_loop inp pos (xs @ ys) st =
     (case parse_loop inp pos xs st of Inl e \<Rightarrow> Inl e
      | Inr st1 \<Rightarrow> parse_loop inp (pos + length xs) ys st1)"
  by (induction xs arbitrary: pos st) (simp_all split: sum.splits)

lemma length_dec_Suc: "\<not> n < 10 \<Longrightarrow> length (dec n) = Suc (length (dec (n div 10)))"
  by (subst dec.simps) simp

lemma parse_dec_int:
  "\<not> decimals st \<Longrightarrow>
     parse_loop inp pos (dec n @ rest) st =
       parse_loop inp (pos + length (dec n)) rest
         (st\<lparr>val := val st * 10 ^ length (dec n) + of_nat n * BTC\<rparr>)"
proof (induction n arbitrary: rest rule: dec.induct)
  case (1 n)
  show ?case
  proof (cases "n < 10")
    case True
    then have d: "dec n = [digit_char n]" by (subst dec.simps) simp
    show ?thesis using True 1(2) by (simp add: d parse_loop_digit add_def del: parse_loop.simps)
  next
    case False
    then have d: "dec n = dec (n div 10) @ [digit_char (n mod 10)]" by (subst dec.simps) simp
    have n: "(of_nat n :: Amount) = of_nat (n div 10) * 10 + of_nat (n mod 10)"
      by (metis of_nat_add of_nat_mult of_nat_numeral div_mult_mod_eq)
    show ?thesis
      using 1(1) [OF False 1(2), of "digit_char (n mod 10) # rest"] 1(2)
      by (simp add: d parse_loop_digit add_def n algebra_simps del: parse_loop.simps)
  qed
qed


lemma go_div_pow10: "j \<le> 17 \<Longrightarrow> go_div (10 ^ Suc j) 10 = 10 ^ j"
proof -
  assume j: "j \<le> 17"
  then have "sint ((10::Amount) ^ Suc j) = 10 ^ Suc j" by (intro sint_pow10) simp
  moreover have "((10::int) ^ j * 10) sdiv 10 = 10 ^ j" by (rule sdiv_mult_cancel) simp
  ultimately show ?thesis by (simp add: go_div_def mult.commute)
qed

lemma zero_char: "CHR ''0'' = digit_char 0"
  by (simp add: digit_char_simps)

lemma parse_zeros_mul:
  "decimals st \<Longrightarrow> mul st = 10 ^ k \<Longrightarrow> z \<le> k \<Longrightarrow> k \<le> 18 \<Longrightarrow>
     parse_loop inp pos (replicate z (CHR ''0'') @ rest) st =
       parse_loop inp (pos + z) rest (st\<lparr>mul := 10 ^ (k - z)\<rparr>)"
proof (induction z arbitrary: st pos k)
  case 0
  have "st\<lparr>mul := mul st\<rparr> = st" by simp
  then have "st\<lparr>mul := 10 ^ k\<rparr> = st" by (simp only: 0(2))
  then show ?case by simp
next
  case (Suc z)
  then obtain j where k: "k = Suc j" by (cases k) auto
  have j: "j \<le> 17" using Suc.prems k by simp
  have st1: "add (of_nat 0) st = st\<lparr>mul := 10 ^ j\<rparr>"
    using Suc.prems go_div_pow10 [OF j] by (simp add: add_def k)
  have "parse_loop inp (Suc pos) (replicate z (CHR ''0'') @ rest) (st\<lparr>mul := 10 ^ j\<rparr>) =
       parse_loop inp (Suc pos + z) rest (st\<lparr>mul := 10 ^ j\<rparr>\<lparr>mul := 10 ^ (j - z)\<rparr>)"
    using Suc.prems k by (intro Suc.IH) simp_all
  then show ?case
    using st1 by (simp add: zero_char parse_loop_digit k del: parse_loop.simps)
qed

lemma parse_zeros_val:
  "decimals st \<Longrightarrow>
     \<exists>st'. parse_loop inp pos (replicate z (CHR ''0'')) st = Inr st'
        \<and> val st' = val st \<and> negative st' = negative st"
proof (induction z arbitrary: st pos)
  case 0
  then show ?case by simp
next
  case (Suc z)
  have d: "decimals (add 0 st)" using Suc.prems by simp
  have v: "val (add 0 st) = val st" "negative (add 0 st) = negative st"
    using Suc.prems by (simp_all add: add_def)
  from Suc.IH [OF d, of "Suc pos"] show ?case
    by (simp add: zero_char parse_loop_digit v del: parse_loop.simps)
qed

lemma zero_pad_small:
  "n < 10 \<Longrightarrow> 1 \<le> w \<Longrightarrow> zero_pad w (dec n) = replicate (w - 1) (CHR ''0'') @ [digit_char n]"
  by (subst dec.simps) (simp add: zero_pad_def)

lemma zero_pad_large:
  "\<not> n < 10 \<Longrightarrow> zero_pad w (dec n) = zero_pad (w - 1) (dec (n div 10)) @ [digit_char (n mod 10)]"
  by (subst dec.simps) (simp add: zero_pad_def)

lemma parse_frac:
  "decimals st \<Longrightarrow> mul st = 10 ^ k \<Longrightarrow> k \<le> 17 \<Longrightarrow> 1 \<le> w \<Longrightarrow> w \<le> k + 1 \<Longrightarrow> n < 10 ^ w \<Longrightarrow>
     parse_loop inp pos (zero_pad w (dec n) @ rest) st =
       parse_loop inp (pos + w) rest
         (st\<lparr>val := val st + of_nat n * 10 ^ (k + 1 - w), mul := go_div (10 ^ (k + 1 - w)) 10\<rparr>)"
proof (induction n arbitrary: w rest rule: dec.induct)
  case (1 n)
  show ?case
  proof (cases "n < 10")
    case True
    have z: "parse_loop inp pos (replicate (w - 1) (CHR ''0'') @ (digit_char n # rest)) st =
       parse_loop inp (pos + (w - 1)) (digit_char n # rest) (st\<lparr>mul := 10 ^ (k - (w - 1))\<rparr>)"
      using 1(2-) by (intro parse_zeros_mul) simp_all
    have e: "k - (w - 1) = k + 1 - w" using 1(2-) by simp
    show ?thesis
      using True 1(2-) z
      by (simp add: zero_pad_small parse_loop_digit add_def e del: parse_loop.simps)
  next
    case False
    have w2: "2 \<le> w"
    proof (rule ccontr)
      assume "\<not> 2 \<le> w"
      then have "w = 1" using 1(5) by simp
      then show False using False 1(7) by simp
    qed
    have lt: "n div 10 < 10 ^ (w - 1)"
    proof -
      have "10 ^ w = (10::nat) * 10 ^ (w - 1)" using w2 by (cases w) simp_all
      then show ?thesis using 1(7) by (simp add: less_mult_imp_div_less mult.commute)
    qed
    have ih: "parse_loop inp pos (zero_pad (w - 1) (dec (n div 10)) @ (digit_char (n mod 10) # rest)) st =
       parse_loop inp (pos + (w - 1)) (digit_char (n mod 10) # rest)
         (st\<lparr>val := val st + of_nat (n div 10) * 10 ^ (k + 1 - (w - 1)),
             mul := go_div (10 ^ (k + 1 - (w - 1))) 10\<rparr>)"
      using 1(2-) w2 lt by (intro 1(1) [OF False]) simp_all
    define j where "j = k + 1 - w"
    have e: "k + 1 - (w - 1) = Suc j" using 1(2-) w2 by (simp add: j_def)
    have j: "j \<le> 17" using 1(2-) by (simp add: j_def)
    have n: "(of_nat n :: Amount) = of_nat (n div 10) * 10 + of_nat (n mod 10)"
      by (metis of_nat_add of_nat_mult of_nat_numeral div_mult_mod_eq)
    define st1 where
      "st1 = st\<lparr>val := val st + of_nat (n div 10) * 10 ^ Suc j, mul := 10 ^ j\<rparr>"
    have d1: "decimals st1" using 1(2) by (simp add: st1_def)
    have a: "add (of_nat (n mod 10)) st1
              = st\<lparr>val := val st + of_nat n * 10 ^ j, mul := go_div (10 ^ j) 10\<rparr>"
      using d1 by (simp add: add_def st1_def n algebra_simps)
    have p: "Suc (pos + (w - Suc 0)) = pos + w" using w2 by simp
    have "parse_loop inp pos (zero_pad w (dec n) @ rest) st
            = parse_loop inp pos
                (zero_pad (w - 1) (dec (n div 10)) @ (digit_char (n mod 10) # rest)) st"
      by (simp add: zero_pad_large [OF False])
    also have "\<dots> = parse_loop inp (pos + (w - 1)) (digit_char (n mod 10) # rest) st1"
      unfolding ih e go_div_pow10 [OF j] st1_def ..
    also have "\<dots> = parse_loop inp (pos + w) rest (add (of_nat (n mod 10)) st1)"
      by (simp add: parse_loop_digit p del: parse_loop.simps)
    finally show ?thesis unfolding a j_def .
  qed
qed


lemma strip_decomp:
  "s \<noteq> [] \<Longrightarrow> \<exists>z. s = strip_trailing_zeros s @ replicate z (CHR ''0'')"
proof (induction s rule: rev_induct)
  case Nil
  then show ?case by simp
next
  case (snoc x xs)
  show ?case
  proof (cases "xs = [] \<or> x \<noteq> CHR ''0''")
    case True
    then have "strip_trailing_zeros (xs @ [x]) = xs @ [x]" by (simp add: strip_spec_snoc)
    then show ?thesis by (intro exI [of _ 0]) simp
  next
    case False
    then obtain z where z: "xs = strip_trailing_zeros xs @ replicate z (CHR ''0'')"
      using snoc.IH by auto
    have x: "x = CHR ''0''" using False by simp
    have st: "strip_trailing_zeros (xs @ [x]) = strip_trailing_zeros xs"
      using False by (simp add: strip_spec_snoc)
    have "xs @ [x] = (strip_trailing_zeros xs @ replicate z (CHR ''0'')) @ [CHR ''0'']"
      using z x by simp
    also have "\<dots> = strip_trailing_zeros xs @ replicate (Suc z) (CHR ''0'')"
      by (simp add: replicate_append_same)
    finally have e: "xs @ [x] = strip_trailing_zeros xs @ replicate (Suc z) (CHR ''0'')" .
    show ?thesis unfolding st by (rule exI [of _ "Suc z"]) (rule e)
  qed
qed

lemma parse_loop_decimals:
  "parse_loop inp pos rs st = Inr st' \<Longrightarrow> decimals st \<Longrightarrow> decimals st'"
  by (induction rs arbitrary: pos st) (auto split: if_splits)

lemma parse_spec_rightStr:
  assumes "decimals st" and "mul st = 10 ^ 7" and "r < 10 ^ 8"
  shows "\<exists>st'. parse_loop inp pos (spec_rightStr 8 r) st = Inr st'
           \<and> val st' = val st + of_nat r \<and> negative st' = negative st"
proof -
  let ?padded = "zero_pad 8 (dec r)"
  have "parse_loop inp pos (?padded @ []) st =
       parse_loop inp (pos + 8) []
         (st\<lparr>val := val st + of_nat r * 10 ^ (7 + 1 - 8), mul := go_div (10 ^ (7 + 1 - 8)) 10\<rparr>)"
    using assms by (intro parse_frac) simp_all
  then have full: "parse_loop inp pos ?padded st =
       Inr (st\<lparr>val := val st + of_nat r, mul := go_div 1 10\<rparr>)"
    by simp
  have "?padded \<noteq> []" by (intro zero_pad_nonempty dec_nonempty)
  then obtain z where z: "?padded = spec_rightStr 8 r @ replicate z (CHR ''0'')"
    using strip_decomp [of ?padded] by (auto simp: spec_rightStr_def)
  have "parse_loop inp pos (spec_rightStr 8 r @ replicate z (CHR ''0'')) st =
       Inr (st\<lparr>val := val st + of_nat r, mul := go_div 1 10\<rparr>)"
    using full z by simp
  then obtain st1 where s1: "parse_loop inp pos (spec_rightStr 8 r) st = Inr st1"
    and s2: "parse_loop inp (pos + length (spec_rightStr 8 r)) (replicate z (CHR ''0'')) st1
              = Inr (st\<lparr>val := val st + of_nat r, mul := go_div 1 10\<rparr>)"
    by (auto simp: parse_loop_append split: sum.splits)
  have "decimals st1" using s1 assms(1) by (rule parse_loop_decimals)
  from parse_zeros_val [OF this, of inp "pos + length (spec_rightStr 8 r)" z] s2
  have "val st1 = val st + of_nat r" "negative st1 = negative st" by auto
  with s1 show ?thesis by simp
qed


lemma parse_init_eq: "parse_init = \<lparr>val = 0, decimals = False, negative = False, mul = 10 ^ 7\<rparr>"
  by (simp add: parse_init_def unit_defs)

lemma parse_sprintf_d:
  "parse_loop inp 0 (sprintf_d left @ tail) parse_init =
     parse_loop inp (length (sprintf_d left)) tail
       \<lparr>val = of_nat (nat \<bar>sint left\<bar>) * BTC, decimals = False,
        negative = (sint left < 0), mul = 10 ^ 7\<rparr>"
proof (cases "sint left < 0")
  case True
  have "parse_loop inp (Suc 0) (dec (nat (- sint left)) @ tail) (parse_init\<lparr>negative := True\<rparr>)
        = parse_loop inp (Suc 0 + length (dec (nat (- sint left)))) tail
           (parse_init\<lparr>negative := True\<rparr>
              \<lparr>val := val (parse_init\<lparr>negative := True\<rparr>) * 10 ^ length (dec (nat (- sint left)))
                       + of_nat (nat (- sint left)) * BTC\<rparr>)"
    by (rule parse_dec_int) (simp add: parse_init_eq)
  then show ?thesis using True by (simp add: sprintf_d_def parse_init_eq)
next
  case False
  have "parse_loop inp 0 (dec (nat (sint left)) @ tail) parse_init
        = parse_loop inp (0 + length (dec (nat (sint left)))) tail
           (parse_init\<lparr>val := val parse_init * 10 ^ length (dec (nat (sint left)))
                       + of_nat (nat (sint left)) * BTC\<rparr>)"
    by (rule parse_dec_int) (simp add: parse_init_eq)
  then show ?thesis using False by (simp add: sprintf_d_def parse_init_eq)
qed

lemma Parse_left_only:
  "Parse (sprintf_d left) =
     (if sint left < 0 then - (of_nat (nat \<bar>sint left\<bar>) * BTC) else of_nat (nat \<bar>sint left\<bar>) * BTC, None)"
  using parse_sprintf_d [of "sprintf_d left" left "[]"] by (simp add: Parse_def)

lemma Parse_left_right:
  assumes "r < 10 ^ 8"
  shows "Parse (sprintf_d left @ ''.'' @ spec_rightStr 8 r) =
     (if sint left < 0 then - (of_nat (nat \<bar>sint left\<bar>) * BTC + of_nat r)
      else of_nat (nat \<bar>sint left\<bar>) * BTC + of_nat r, None)"
proof -
  let ?inp = "sprintf_d left @ ''.'' @ spec_rightStr 8 r"
  let ?st = "\<lparr>val = of_nat (nat \<bar>sint left\<bar>) * BTC, decimals = True,
        negative = (sint left < 0), mul = 10 ^ 7\<rparr>"
  have "parse_loop ?inp 0 ?inp parse_init =
      parse_loop ?inp (Suc (length (sprintf_d left))) (spec_rightStr 8 r) ?st"
    using parse_sprintf_d [of ?inp left "''.'' @ spec_rightStr 8 r"]
    by (simp add: is_digit_def)
  moreover obtain st' where
    "parse_loop ?inp (Suc (length (sprintf_d left))) (spec_rightStr 8 r) ?st = Inr st'"
    "val st' = val ?st + of_nat r" "negative st' = negative ?st"
    using parse_spec_rightStr [of ?st r ?inp "Suc (length (sprintf_d left))"] assms by auto
  ultimately show ?thesis by (simp add: Parse_def)
qed


lemma spec_rightStr_0_only:
  assumes "r < 10 ^ 8" and "spec_rightStr 8 r = ''0''"
  shows "r = 0"
proof -
  let ?st = "\<lparr>val = 0, decimals = True, negative = False, mul = 10 ^ 7\<rparr>"
  obtain st' where "parse_loop [] 0 (spec_rightStr 8 r) ?st = Inr st'"
    and v: "val st' = val ?st + of_nat r"
    using parse_spec_rightStr [of ?st r "[]" 0] assms(1) by auto
  then have "st' = add 0 ?st"
    by (simp add: assms(2) zero_char parse_loop_digit del: parse_loop.simps(2))
  then have "(of_nat r :: Amount) = 0" using v by (simp add: add_def)
  then have "2 ^ 64 dvd r" by (simp add: word_of_nat_eq_0_iff)
  moreover have "r < 2 ^ 64" using assms(1) by simp
  ultimately show ?thesis by (auto dest: dvd_imp_le)
qed

lemma recombine:
  fixes x :: int
  assumes "\<not> (x < 0 \<and> - 100000000 < x)"
  shows "(if x sdiv 100000000 < 0
          then - (\<bar>x sdiv 100000000\<bar> * 100000000 + \<bar>x smod 100000000\<bar>)
          else \<bar>x sdiv 100000000\<bar> * 100000000 + \<bar>x smod 100000000\<bar>) = x"
proof -
  let ?u = "100000000 :: int"
  have e: "x sdiv ?u * ?u + x smod ?u = x" by (rule sdiv_mult_smod_eq)
  have lt: "\<bar>x smod ?u\<bar> < ?u" using smod_abs_lt [of ?u x] by simp
  have q: "(0 \<le> x sdiv ?u \<and> x sdiv ?u \<le> x) \<or> (x \<le> x sdiv ?u \<and> x sdiv ?u \<le> 0)"
    by (rule sdiv_between) simp
  have r: "(0 \<le> x smod ?u \<and> x smod ?u \<le> x) \<or> (x \<le> x smod ?u \<and> x smod ?u \<le> 0)"
    by (rule smod_between)
  show ?thesis using e lt q r assms by (auto simp: abs_if split: if_splits)
qed

text \<open>
  Every Amount that is not strictly between minus one BTC and zero is parsed back from the
  text Format and MarshalText write at the unit BTC, the least int64 and every other
  Amount near the ends of the range included.
\<close>

lemma Parse_Format_BTC:
  assumes "\<not> (sint a < 0 \<and> - 100000000 < sint a)"
  shows "\<exists>s t. Format a BTC = Some s \<and> Parse s = (a, None)
            \<and> MarshalText a = Some t \<and> Parse t = (a, None)"
proof -
  have b: "BTC = 10 ^ 8" by (simp add: unit_defs)
  have u: "sint ((10::Amount) ^ 8) = 100000000" using sint_pow10 [of 8] by simp
  obtain left right where s: "split a (10 ^ 8) = (left, right)" by (cases "split a (10 ^ 8)")
  have L: "sint left = sint a sdiv 100000000" and R: "sint right = \<bar>sint a smod 100000000\<bar>"
    using split_sint [of "10 ^ 8" a left right] s u by simp_all
  define r where "r = nat (sint right)"
  have r8: "r < 10 ^ 8" using smod_abs_lt [of 100000000 "sint a"] by (simp add: r_def R)
  have ss: "SplitString a BTC = Some (sprintf_d left, spec_rightStr 8 r)"
    unfolding b r_def by (rule SplitString_pow10 [OF _ s]) simp
  have w: "(of_nat (nat \<bar>sint left\<bar>) * BTC + of_nat r :: Amount)
            = word_of_int (\<bar>sint a sdiv 100000000\<bar> * 100000000 + \<bar>sint a smod 100000000\<bar>)"
    by (simp add: b r_def L R)
  have v: "(if sint left < 0 then - (of_nat (nat \<bar>sint left\<bar>) * BTC + of_nat r)
            else of_nat (nat \<bar>sint left\<bar>) * BTC + of_nat r) = a"
  proof -
    have "(if sint left < 0 then - (of_nat (nat \<bar>sint left\<bar>) * BTC + of_nat r)
            else of_nat (nat \<bar>sint left\<bar>) * BTC + of_nat r)
          = (word_of_int (if sint a sdiv 100000000 < 0
              then - (\<bar>sint a sdiv 100000000\<bar> * 100000000 + \<bar>sint a smod 100000000\<bar>)
              else \<bar>sint a sdiv 100000000\<bar> * 100000000 + \<bar>sint a smod 100000000\<bar>) :: Amount)"
      unfolding w by (simp add: L)
    also have "\<dots> = word_of_int (sint a)" by (simp only: recombine [OF assms])
    finally show ?thesis by simp
  qed
  have t: "Parse (sprintf_d left @ ''.'' @ spec_rightStr 8 r) = (a, None)"
    using Parse_left_right [OF r8, of left] v by simp
  have f: "Parse (sprintf_d left) = (a, None)" if z: "spec_rightStr 8 r = ''0''"
  proof -
    have r0: "r = 0" using r8 z by (intro spec_rightStr_0_only)
    have "(if sint left < 0 then - (of_nat (nat \<bar>sint left\<bar>) * BTC)
            else of_nat (nat \<bar>sint left\<bar>) * BTC) = a"
      using v unfolding r0 by (simp cong: if_cong)
    then show ?thesis by (simp only: Parse_left_only)
  qed
  show ?thesis
    using f t by (auto simp: Format_def MarshalText_def ss)
qed

lemma Parse_Format_BTC_example:
  "\<not> (sint (- 2010000000 :: Amount) < 0 \<and> - 100000000 < sint (- 2010000000 :: Amount))
   \<and> Format (- 2010000000) BTC = Some ''-20.1''
   \<and> Parse ''-20.1'' = (- 2010000000, None)"
proof -
  have h: "\<not> (sint (- 2010000000 :: Amount) < 0 \<and> - 100000000 < sint (- 2010000000 :: Amount))"
    by simp
  have "SplitString (- 2010000000) BTC = Some (''-20'', ''1'')"
    by (rule SplitString_eval [of 8 _ _ "- 20" 10000000])
       (simp_all add: unit_defs split_eval sprintf_d_def spec_eval)
  then have f: "Format (- 2010000000) BTC = Some ''-20.1''" by (simp add: Format_def)
  show ?thesis using h f Parse_Format_BTC [OF h] by simp
qed


lemma SplitString_neg_half: "SplitString (- 50000000) BTC = Some (''0'', ''5'')"
  by (rule SplitString_eval [of 8 _ _ 0 50000000])
     (simp_all add: unit_defs split_eval sprintf_d_def spec_eval)

lemma SplitString_neg_half_Satoshi:
  "SplitString (- 50000000) Satoshi = Some (''-50000000'', ''0'')"
  by (rule SplitString_eval [of 0 _ _ "- 50000000" 0])
     (simp_all add: unit_defs split_eval sprintf_d_def spec_eval)

text \<open>
  Claim C1, at the input \<^verbatim>\<open>-0.5\<close>, which has the canonical form and one fractional
  digit. Parse gives -50000000 satoshis, an Amount strictly between minus one BTC and
  zero. At the unit BTC, the one MarshalText uses, split gives the quotient 0 and the
  remainder's absolute value, so Format and MarshalText write \<^verbatim>\<open>0.5\<close> with no sign,
  which parses to +50000000. At the unit Satoshi Format writes \<^verbatim>\<open>-50000000\<close>, which
  parses as that many whole BTC.
\<close>

theorem Format_drops_sign_below_one_unit:
  "Parse ''-0.5'' = (- 50000000, None)
   \<and> Format (- 50000000) BTC = Some ''0.5''
   \<and> MarshalText (- 50000000) = Some ''0.5''
   \<and> Parse ''0.5'' = (50000000, None)
   \<and> (50000000 :: Amount) \<noteq> - 50000000
   \<and> Format (- 50000000) Satoshi = Some ''-50000000''
   \<and> Parse ''-50000000'' = (- 5000000000000000, None)
   \<and> (- 5000000000000000 :: Amount) \<noteq> - 50000000"
proof -
  have p1: "Parse ''-0.5'' = (- 50000000, None)" by code_simp
  have p2: "Parse ''0.5'' = (50000000, None)" by code_simp
  have p3: "Parse ''-50000000'' = (- 5000000000000000, None)" by code_simp
  have f1: "Format (- 50000000) BTC = Some ''0.5''"
    by (simp add: Format_def SplitString_neg_half)
  have f2: "MarshalText (- 50000000) = Some ''0.5''"
    by (simp add: MarshalText_def SplitString_neg_half)
  have f3: "Format (- 50000000) Satoshi = Some ''-50000000''"
    by (simp add: Format_def SplitString_neg_half_Satoshi)
  show ?thesis by (simp add: p1 p2 p3 f1 f2 f3)
qed

end
